theory Spec2Isabelle
  imports Complex_Main "HOL-Library.Monad_Syntax"
begin

section \<open>Go values used by the smoother\<close>

text \<open>
  The package \<^verbatim>\<open>smoother\<close> (file \<^verbatim>\<open>wesmoother.go\<close>) is embedded in exact real
  arithmetic: a \<^verbatim>\<open>float64\<close> is a \<^typ>\<open>real\<close>, a \<^verbatim>\<open>[]float64\<close> a \<^typ>\<open>real list\<close>.
  A computation that may stop with a runtime panic (a negative \<^verbatim>\<open>make\<close>, an index
  out of range, a matrix of the wrong shape) has an \<^typ>\<open>'a option\<close> result, where
  \<^term>\<open>None\<close> is the panic. Sizes that the source computes by subtraction are
  \<^typ>\<open>int\<close>, so that a negative size is a value the model sees; indices that the
  source only ever counts upwards from zero are \<^typ>\<open>nat\<close>. Sizes are not bounded
  by the machine word: a run that would overflow a 64-bit \<^verbatim>\<open>int\<close> needs a slice
  far larger than any address space and stops in \<^verbatim>\<open>make\<close>.
\<close>

definition make_slice :: "int \<Rightarrow> 'a \<Rightarrow> 'a list option" where
  \<comment> \<open>\<^verbatim>\<open>make([]T, n)\<close>: a zeroed slice, a panic when \<^verbatim>\<open>n\<close> is negative.\<close>
  "make_slice n z = (if n < 0 then None else Some (replicate (nat n) z))"

definition slice_get :: "'a list \<Rightarrow> int \<Rightarrow> 'a option" where
  \<comment> \<open>\<^verbatim>\<open>xs[i]\<close> read; out of range is a panic.\<close>
  "slice_get xs i = (if 0 \<le> i \<and> i < int (length xs) then Some (xs ! nat i) else None)"

definition slice_set :: "'a list \<Rightarrow> int \<Rightarrow> 'a \<Rightarrow> 'a list option" where
  \<comment> \<open>\<^verbatim>\<open>xs[i] = v\<close>; out of range is a panic.\<close>
  "slice_set xs i v = (if 0 \<le> i \<and> i < int (length xs) then Some (xs[nat i := v]) else None)"

fun for_loop :: "nat list \<Rightarrow> (nat \<Rightarrow> 's \<Rightarrow> 's option) \<Rightarrow> 's \<Rightarrow> 's option" where
  \<comment> \<open>A counted \<^verbatim>\<open>for\<close> loop over the given index values; the body may leave the
      loop early (\<^term>\<open>None\<close>: a panic, or the early \<^verbatim>\<open>return\<close> of the caller).\<close>
  "for_loop [] body s = Some s"
| "for_loop (i # is) body s = (case body i s of None \<Rightarrow> None | Some s' \<Rightarrow> for_loop is body s')"

section \<open>The sparse and dense matrices of the libraries\<close>

text \<open>
  \<^verbatim>\<open>sparse.CSR\<close> (github.com/james-bowman/sparse) is a struct of the two
  dimensions, the row pointers \<^verbatim>\<open>Indptr\<close>, the column indices \<^verbatim>\<open>Ind\<close> and the
  values \<^verbatim>\<open>Data\<close>. \<^verbatim>\<open>NewCSR(r, c, ia, ja, data)\<close> stores its arguments unchecked:
  \<^verbatim>\<open>ia\<close> becomes \<^verbatim>\<open>Indptr\<close> and \<^verbatim>\<open>ja\<close> becomes \<^verbatim>\<open>Ind\<close>.
\<close>

record CSR =
  csr_I :: int
  csr_J :: int
  Indptr :: "nat list"
  Ind :: "nat list"
  Data :: "real list"

definition NewCSR :: "int \<Rightarrow> int \<Rightarrow> nat list \<Rightarrow> nat list \<Rightarrow> real list \<Rightarrow> CSR" where
  "NewCSR r c ia ja data = \<lparr>csr_I = r, csr_J = c, Indptr = ia, Ind = ja, Data = data\<rparr>"

text \<open>
  A \<^verbatim>\<open>mat.Dense\<close> (gonum) with \<open>r\<close> rows and \<open>c\<close> columns is the list of its rows.
  \<^verbatim>\<open>mat.NewDense(r, c, nil)\<close> panics unless both dimensions are positive;
  \<^verbatim>\<open>Set\<close> and \<^verbatim>\<open>At\<close> panic outside the matrix.
\<close>

type_synonym dense = "real list list"

definition dense_rows :: "dense \<Rightarrow> nat" where
  "dense_rows a = length a"

definition dense_cols :: "dense \<Rightarrow> nat" where
  "dense_cols a = (case a of [] \<Rightarrow> 0 | r # _ \<Rightarrow> length r)"

definition NewDense :: "int \<Rightarrow> int \<Rightarrow> dense option" where
  "NewDense r c = (if r \<le> 0 \<or> c \<le> 0 then None else Some (replicate (nat r) (replicate (nat c) 0)))"

definition Dense_Set :: "dense \<Rightarrow> nat \<Rightarrow> nat \<Rightarrow> real \<Rightarrow> dense option" where
  "Dense_Set a i j v =
     (if i < dense_rows a \<and> j < dense_cols a then Some (a[i := (a ! i)[j := v]]) else None)"

definition Dense_At :: "dense \<Rightarrow> nat \<Rightarrow> nat \<Rightarrow> real option" where
  "Dense_At a i j = (if i < dense_rows a \<and> j < dense_cols a then Some (a ! i ! j) else None)"

definition ToDense :: "CSR \<Rightarrow> dense option" where
  \<comment> \<open>\<^verbatim>\<open>(*CSR).ToDense\<close>: for \<^verbatim>\<open>i := 0; i < len(Indptr)-1; i++\<close>, for
      \<^verbatim>\<open>j := Indptr[i]; j < Indptr[i+1]; j++\<close>, \<^verbatim>\<open>mat.Set(i, Ind[j], Data[j])\<close>.\<close>
  "ToDense c = do {
     mat \<leftarrow> NewDense (csr_I c) (csr_J c);
     for_loop [0..<length (Indptr c) - 1] (\<lambda>i mat. do {
         lo \<leftarrow> slice_get (Indptr c) (int i);
         hi \<leftarrow> slice_get (Indptr c) (int i + 1);
         for_loop [lo..<hi] (\<lambda>j mat. do {
             col \<leftarrow> slice_get (Ind c) (int j);
             v \<leftarrow> slice_get (Data c) (int j);
             Dense_Set mat i col v
           }) mat
       }) mat
   }"

section \<open>speye, vecDiff and differenceMatrix\<close>

definition speye :: "nat \<Rightarrow> CSR option" where
  \<comment> \<open>The three slices are filled as in the source; the call is
      \<^verbatim>\<open>sparse.NewCSR(n, n, indices, indptr, data)\<close>, in this order.\<close>
  "speye n = do {
     data \<leftarrow> make_slice (int n) (0::real);
     indices \<leftarrow> make_slice (int n) (0::nat);
     indptr \<leftarrow> make_slice (int n + 1) (0::nat);
     (data, indices, indptr) \<leftarrow> for_loop [0..<n] (\<lambda>i (data, indices, indptr). do {
         data \<leftarrow> slice_set data (int i) 1;
         indices \<leftarrow> slice_set indices (int i) i;
         indptr \<leftarrow> slice_set indptr (int i) i;
         Some (data, indices, indptr)
       }) (data, indices, indptr);
     indptr \<leftarrow> slice_set indptr (int n) n;
     Some (NewCSR (int n) (int n) indices indptr data)
   }"

definition vecDiff :: "real list \<Rightarrow> real list \<Rightarrow> real list option" where
  \<comment> \<open>\<^verbatim>\<open>diff[i] = a[i] - b[i]\<close> for every index of \<^verbatim>\<open>a\<close>; reading \<^verbatim>\<open>b\<close> past its
      end is a panic.\<close>
  "vecDiff a b =
     (if length b < length a then None else Some (map (\<lambda>i. a ! i - b ! i) [0..<length a]))"

definition differenceMatrix :: "nat \<Rightarrow> int \<Rightarrow> CSR option" where
  "differenceMatrix n order = do {
     coeffs \<leftarrow> make_slice (2 * order + 1) (0::real);
     coeffs \<leftarrow> slice_set coeffs order 1;
     coeffs \<leftarrow> for_loop [0..<nat order] (\<lambda>i coeffs.
         if coeffs = [] then None else vecDiff (butlast coeffs) (tl coeffs)) coeffs;
     let nRows = int n - order;
     data \<leftarrow> make_slice (nRows * int n) (0::real);
     indices \<leftarrow> make_slice (nRows * int n) (0::nat);
     indptr \<leftarrow> make_slice (nRows + 1) (0::nat);
     (data, indices, indptr, idx) \<leftarrow> for_loop [0..<nat nRows] (\<lambda>i (data, indices, indptr, idx). do {
         indptr \<leftarrow> slice_set indptr (int i) idx;
         for_loop [0..<nat (order + 1)] (\<lambda>j (data, indices, indptr, idx). do {
             c \<leftarrow> slice_get coeffs (int j);
             data \<leftarrow> slice_set data (int idx) c;
             indices \<leftarrow> slice_set indices (int idx) (i + j);
             Some (data, indices, indptr, idx + 1)
           }) (data, indices, indptr, idx)
       }) (data, indices, indptr, 0);
     indptr \<leftarrow> slice_set indptr nRows idx;
     Some (NewCSR nRows (int n) indptr indices data)
   }"

section \<open>Dense arithmetic and the symmetric matrix\<close>

text \<open>
  \<^verbatim>\<open>T\<close>, \<^verbatim>\<open>Mul\<close>, \<^verbatim>\<open>Scale\<close> and \<^verbatim>\<open>Add\<close> of \<^verbatim>\<open>mat.Dense\<close>. \<^verbatim>\<open>Mul\<close> and
  \<^verbatim>\<open>Add\<close> panic on operands whose shapes do not fit.
\<close>

definition Dense_T :: "dense \<Rightarrow> dense" where
  "Dense_T a = map (\<lambda>j. map (\<lambda>i. a ! i ! j) [0..<dense_rows a]) [0..<dense_cols a]"

definition Dense_Mul :: "dense \<Rightarrow> dense \<Rightarrow> dense option" where
  "Dense_Mul a b =
     (if dense_cols a \<noteq> dense_rows b then None
      else Some (map (\<lambda>i. map (\<lambda>j. \<Sum>k\<leftarrow>[0..<dense_cols a]. a ! i ! k * b ! k ! j)
                              [0..<dense_cols b]) [0..<dense_rows a]))"

definition Dense_Scale :: "real \<Rightarrow> dense \<Rightarrow> dense" where
  "Dense_Scale f a = map (map (\<lambda>v. f * v)) a"

definition Dense_Add :: "dense \<Rightarrow> dense \<Rightarrow> dense option" where
  "Dense_Add a b =
     (if dense_rows a = dense_rows b \<and> dense_cols a = dense_cols b
      then Some (map (\<lambda>i. map (\<lambda>j. a ! i ! j + b ! i ! j) [0..<dense_cols a]) [0..<dense_rows a])
      else None)"

text \<open>
  A \<^verbatim>\<open>mat.SymDense\<close> of order \<open>n\<close> keeps the upper triangle of an \<open>n \<times> n\<close> store;
  \<^verbatim>\<open>SetSym(i, j, v)\<close> and \<^verbatim>\<open>At(i, j)\<close> go to the entry \<open>(min i j, max i j)\<close>.
\<close>

definition NewSymDense :: "int \<Rightarrow> dense option" where
  "NewSymDense n = (if n \<le> 0 then None else Some (replicate (nat n) (replicate (nat n) 0)))"

definition SetSym :: "dense \<Rightarrow> nat \<Rightarrow> nat \<Rightarrow> real \<Rightarrow> dense option" where
  "SetSym s i j v =
     (if i < length s \<and> j < length s
      then Some (s[min i j := (s ! min i j)[max i j := v]]) else None)"

definition SymDense_At :: "dense \<Rightarrow> nat \<Rightarrow> nat \<Rightarrow> real" where
  "SymDense_At s i j = s ! min i j ! max i j"

section \<open>Cholesky factorization and solve\<close>

text \<open>
  \<^verbatim>\<open>(*mat.Cholesky).Factorize\<close> copies the upper triangle and runs LAPACK's
  \<^verbatim>\<open>Dpotrf\<close>, whose unblocked kernel \<^verbatim>\<open>Dpotf2\<close> is embedded here: column \<open>j\<close>
  of the factor \<open>U\<close> (with \<open>A = U\<^sup>T U\<close>) is computed in place, and the
  factorization gives up (\<^term>\<open>None\<close>, the source's \<^verbatim>\<open>ok == false\<close>) at the first
  pivot that is not positive. In exact arithmetic the blocked variant computes
  the same factor.
\<close>

definition potf2_step :: "nat \<Rightarrow> nat \<Rightarrow> dense \<Rightarrow> dense option" where
  "potf2_step n j a =
     (let ajj = a ! j ! j - (\<Sum>k\<leftarrow>[0..<j]. a ! k ! j * a ! k ! j) in
      if ajj \<le> 0 then None
      else let ajj = sqrt ajj;
               row = map (\<lambda>i. if i < j then a ! j ! i
                              else if i = j then ajj
                              else (a ! j ! i - (\<Sum>k\<leftarrow>[0..<j]. a ! k ! i * a ! k ! j)) * (1 / ajj))
                         [0..<n]
           in Some (a[j := row]))"

definition Dpotf2 :: "nat \<Rightarrow> dense \<Rightarrow> dense option" where
  "Dpotf2 n a = for_loop [0..<n] (potf2_step n) a"

text \<open>
  The two triangular solves of \<^verbatim>\<open>SolveVecTo\<close>, BLAS \<^verbatim>\<open>Dtrsv\<close> on the upper factor:
  first \<open>U\<^sup>T w = b\<close>, then \<open>U z = w\<close>, both in place on the destination.
\<close>

definition Dtrsv_Trans :: "nat \<Rightarrow> dense \<Rightarrow> real list \<Rightarrow> real list" where
  "Dtrsv_Trans n u x =
     fold (\<lambda>i x. let xi = x ! i * (1 / u ! i ! i); x = x[i := xi]
                 in fold (\<lambda>j x. x[j := x ! j - u ! i ! j * xi]) [i + 1..<n] x) [0..<n] x"

definition Dtrsv_NoTrans :: "nat \<Rightarrow> dense \<Rightarrow> real list \<Rightarrow> real list" where
  "Dtrsv_NoTrans n u x =
     fold (\<lambda>i x. let s = (\<Sum>j\<leftarrow>[i + 1..<n]. x ! j * u ! i ! j)
                 in x[i := (x ! i - s) / u ! i ! i]) (rev [0..<n]) x"

definition chol_solve :: "nat \<Rightarrow> dense \<Rightarrow> real list \<Rightarrow> real list" where
  "chol_solve n u b = Dtrsv_NoTrans n u (Dtrsv_Trans n u b)"

text \<open>
  \<^verbatim>\<open>Factorize\<close> also records a condition number, the norm of the matrix
  (\<^verbatim>\<open>Lansy\<close>, maximum absolute row sum) times the 1-norm of its inverse.
  LAPACK's \<^verbatim>\<open>Dpocon\<close> estimates the second factor iteratively in floating point;
  the model takes the exact value of what it estimates, computed from the factor.
  \<^verbatim>\<open>SolveVecTo\<close> reports \<^verbatim>\<open>mat.Condition\<close> when the number exceeds
  \<^verbatim>\<open>mat.ConditionTolerance\<close>, which is \<open>10\<^sup>1\<^sup>6\<close>.
\<close>

definition Lansy :: "nat \<Rightarrow> dense \<Rightarrow> real" where
  "Lansy n s = foldr max (map (\<lambda>i. \<Sum>j\<leftarrow>[0..<n]. \<bar>SymDense_At s i j\<bar>) [0..<n]) 0"

definition unit_vec :: "nat \<Rightarrow> nat \<Rightarrow> real list" where
  "unit_vec n j = map (\<lambda>i. if i = j then 1 else 0) [0..<n]"

definition inverse_norm :: "nat \<Rightarrow> dense \<Rightarrow> real" where
  "inverse_norm n u = foldr max (map (\<lambda>j. \<Sum>v\<leftarrow>chol_solve n u (unit_vec n j). \<bar>v\<bar>) [0..<n]) 0"

record Cholesky =
  chol_U :: dense
  chol_n :: nat
  chol_cond :: real

definition Factorize :: "dense \<Rightarrow> Cholesky option" where
  "Factorize a =
     (let n = length a; norm = Lansy n a in
      case Dpotf2 n a of
        None \<Rightarrow> None
      | Some u \<Rightarrow> Some \<lparr>chol_U = u, chol_n = n, chol_cond = norm * inverse_norm n u\<rparr>)"

definition ConditionTolerance :: real where
  "ConditionTolerance = 10 ^ 16"

section \<open>Slices in memory and the vectors that share them\<close>

text \<open>
  \<^verbatim>\<open>mat.NewVecDense(n, data)\<close> does not copy: the vector reads and writes the
  backing array of the slice it was given. To see what a call does to the
  caller's slice, backing arrays live in a heap and are named by their address.
\<close>

record heap =
  slices :: "real list list"

definition alloc :: "heap \<Rightarrow> real list \<Rightarrow> nat \<times> heap" where
  "alloc h xs = (length (slices h), h\<lparr>slices := slices h @ [xs]\<rparr>)"

record VecDense =
  vec_n :: nat
  vec_data :: nat

definition NewVecDense :: "heap \<Rightarrow> int \<Rightarrow> nat \<Rightarrow> VecDense option" where
  "NewVecDense h n addr =
     (if 0 < n \<and> int (length (slices h ! addr)) = n
      then Some \<lparr>vec_n = nat n, vec_data = addr\<rparr> else None)"

datatype error = ErrorsNew string | Condition real

definition SolveVecTo :: "Cholesky \<Rightarrow> VecDense \<Rightarrow> VecDense \<Rightarrow> heap \<Rightarrow> (error option \<times> heap) option" where
  \<comment> \<open>Shape check, overlap check of the two backing arrays, copy of \<^verbatim>\<open>b\<close> into
      \<^verbatim>\<open>dst\<close>, the two solves on \<^verbatim>\<open>dst\<close>, then the condition test.\<close>
  "SolveVecTo c dst b h =
     (if vec_n b \<noteq> chol_n c then None
      else if vec_data dst = vec_data b then None
      else if vec_n dst \<noteq> chol_n c then None
      else let z = chol_solve (chol_n c) (chol_U c) (slices h ! vec_data b);
               h' = h\<lparr>slices := (slices h)[vec_data dst := z]\<rparr>
           in Some (if chol_cond c > ConditionTolerance then Some (Condition (chol_cond c)) else None, h'))"

section \<open>WESmoother\<close>

definition WESmoother_sym :: "nat \<Rightarrow> real \<Rightarrow> int \<Rightarrow> dense option" where
  \<comment> \<open>The body of \<^verbatim>\<open>WESmoother\<close> up to the call of \<^verbatim>\<open>chol.Factorize(sym)\<close>: the
      result is \<^verbatim>\<open>sym\<close>, for a series of length \<open>m\<close>.\<close>
  "WESmoother_sym m lambda d = do {
     E \<leftarrow> speye m;
     D \<leftarrow> differenceMatrix m d;
     EDense \<leftarrow> ToDense E;
     DDense \<leftarrow> ToDense D;
     DTD \<leftarrow> Dense_Mul (Dense_T DDense) DDense;
     let DTD = Dense_Scale lambda DTD;
     A \<leftarrow> Dense_Add EDense DTD;
     let r = dense_rows A;
     sym' \<leftarrow> NewSymDense (int r);
     for_loop [0..<r] (\<lambda>i sym'.
         for_loop [i..<r] (\<lambda>j sym'. do {
             v \<leftarrow> Dense_At A i j;
             SetSym sym' i j v
           }) sym') sym'
   }"

definition WESmoother_heap ::
  "heap \<Rightarrow> nat \<Rightarrow> real \<Rightarrow> int \<Rightarrow> (nat option \<times> error option) option \<times> heap" where
  \<comment> \<open>The call on a series that lives at address \<open>y\<close>; the returned slice is named
      by its address, \<^term>\<open>None\<close> for \<^verbatim>\<open>nil\<close>.\<close>
  "WESmoother_heap h y lambda d =
     (let m = length (slices h ! y) in
      case WESmoother_sym m lambda d of
        None \<Rightarrow> (None, h)
      | Some sym' \<Rightarrow>
          (case Factorize sym' of
             None \<Rightarrow> (Some (None, Some (ErrorsNew ''cholesky decomposition failed'')), h)
           | Some chol \<Rightarrow>
               (let (z, h1) = alloc h (replicate m 0) in
                case do {
                       b \<leftarrow> NewVecDense h1 (int m) y;
                       x \<leftarrow> NewVecDense h1 (int m) z;
                       SolveVecTo chol x b h1
                     } of
                  None \<Rightarrow> (None, h1)
                | Some (err, h2) \<Rightarrow> (Some (Some z, err), h2))))"

definition WESmoother :: "real list \<Rightarrow> real \<Rightarrow> int \<Rightarrow> (real list option \<times> error option) option" where
  \<comment> \<open>What a caller holding the series \<open>y\<close> gets back: \<^term>\<open>None\<close> for a panic,
      otherwise the pair of the returned series (\<^term>\<open>None\<close> for \<^verbatim>\<open>nil\<close>) and
      the returned error (\<^term>\<open>None\<close> for \<^verbatim>\<open>nil\<close>).\<close>
  "WESmoother y lambda d =
     (case WESmoother_heap \<lparr>slices = [y]\<rparr> 0 lambda d of
        (None, h) \<Rightarrow> None
      | (Some (z, err), h) \<Rightarrow> Some (map_option (\<lambda>a. slices h ! a) z, err))"

section \<open>The specification's difference stencil and reference matrices\<close>

text \<open>
  The stencil as the specification words it: the unit impulse of length \<open>2d + 1\<close>
  centred at position \<open>d\<close>, differenced \<open>d\<close> times with \<open>v[i] - v[i+1]\<close>. The
  \<open>m \<times> m\<close> identity is the matrix the specification expects for order zero.
  \<open>banded\<close> says that row \<open>i\<close> of a matrix holds the coefficients \<open>cs\<close> from
  column \<open>i\<close> on and zero elsewhere; \<open>speye_dense\<close> is the dense matrix that
  \<^verbatim>\<open>speye(n).ToDense()\<close> turns out to be.
\<close>

definition unit_impulse :: "nat \<Rightarrow> real list" where
  "unit_impulse d = map (\<lambda>i. if i = d then 1 else 0) [0..<2 * d + 1]"

definition first_difference :: "real list \<Rightarrow> real list" where
  "first_difference v = map (\<lambda>i. v ! i - v ! (i + 1)) [0..<length v - 1]"

definition stencil :: "nat \<Rightarrow> real list" where
  "stencil d = (first_difference ^^ d) (unit_impulse d)"

definition identity :: "nat \<Rightarrow> dense" where
  "identity m = map (\<lambda>i. map (\<lambda>j. if i = j then 1 else 0) [0..<m]) [0..<m]"

definition banded :: "nat \<Rightarrow> nat \<Rightarrow> real list \<Rightarrow> dense \<Rightarrow> bool" where
  "banded r n cs M \<longleftrightarrow> length M = r \<and>
     (\<forall>i<r. length (M ! i) = n \<and>
        (\<forall>col<n. M ! i ! col = (if i \<le> col \<and> col < i + length cs then cs ! (col - i) else 0)))"

definition speye_dense :: "nat \<Rightarrow> dense" where
  "speye_dense n = map (\<lambda>i. map (\<lambda>j. if i = j \<and> i + 1 < n then 1 else 0) [0..<n]) [0..<n]"

text \<open>
  \<open>difference_dense m d\<close> is the order-\<open>d\<close> difference matrix for length \<open>m\<close> written
  out entry by entry, and \<open>assembled E lambda D i j\<close> is the entry \<open>(i, j)\<close> of
  \<open>E + lambda \<cdot> D\<^sup>T D\<close>.
\<close>

definition difference_dense :: "nat \<Rightarrow> nat \<Rightarrow> dense" where
  "difference_dense m d =
     map (\<lambda>i. map (\<lambda>c. if i \<le> c \<and> c \<le> i + d then stencil d ! (c - i) else 0) [0..<m]) [0..<m - d]"

definition assembled :: "dense \<Rightarrow> real \<Rightarrow> dense \<Rightarrow> nat \<Rightarrow> nat \<Rightarrow> real" where
  "assembled E lambda D i j = E ! i ! j + lambda * (\<Sum>k\<leftarrow>[0..<length D]. D ! k ! i * D ! k ! j)"

section \<open>Reasoning about counted loops\<close>

text \<open>
  A counted loop that never leaves early establishes an invariant indexed by the
  loop counter.
\<close>

lemma for_loop_append:
  "for_loop (xs @ ys) body s = (case for_loop xs body s of None \<Rightarrow> None | Some s' \<Rightarrow> for_loop ys body s')"
  by (induction xs arbitrary: s) (auto split: option.splits)

lemma for_loop_upt_rule:
  assumes ab: "a \<le> b" and init: "P a s"
    and step: "\<And>i s. a \<le> i \<Longrightarrow> i < b \<Longrightarrow> P i s \<Longrightarrow> \<exists>s'. body i s = Some s' \<and> P (Suc i) s'"
  shows "\<exists>s'. for_loop [a..<b] body s = Some s' \<and> P b s'"
proof -
  have "n \<le> b - a \<Longrightarrow> \<exists>s'. for_loop [a..<a + n] body s = Some s' \<and> P (a + n) s'" for n
  proof (induction n)
    case 0
    then show ?case using init by simp
  next
    case (Suc n)
    then obtain s1 where s1: "for_loop [a..<a + n] body s = Some s1" "P (a + n) s1"
      by auto
    from Suc.prems have "a + n < b" by simp
    with step [of "a + n" s1] s1 obtain s2 where s2: "body (a + n) s1 = Some s2" "P (Suc (a + n)) s2"
      by auto
    have "[a..<a + Suc n] = [a..<a + n] @ [a + n]" by simp
    then show ?case using s1 s2 by (simp add: for_loop_append del: upt_Suc)
  qed
  from this [of "b - a"] ab show ?thesis by simp
qed

section \<open>The difference matrix\<close>

lemma length_first_difference_pow: "length ((first_difference ^^ k) v) = length v - k"
  by (induction k) (simp_all add: first_difference_def)

lemma length_stencil: "length (stencil d) = d + 1"
  by (simp add: stencil_def length_first_difference_pow unit_impulse_def)

lemma vecDiff_slices:
  "c \<noteq> [] \<Longrightarrow> vecDiff (butlast c) (tl c) = Some (first_difference c)"
  by (auto simp: vecDiff_def first_difference_def nth_butlast nth_tl)


lemma coeffs_loop:
  "for_loop [0..<d] (\<lambda>i coeffs. if coeffs = [] then None else vecDiff (butlast coeffs) (tl coeffs))
     (unit_impulse d) = Some (stencil d)"
proof -
  let ?P = "\<lambda>i c. c = (first_difference ^^ i) (unit_impulse d)"
  have "\<exists>s'. for_loop [0..<d] (\<lambda>i coeffs. if coeffs = [] then None else vecDiff (butlast coeffs) (tl coeffs))
     (unit_impulse d) = Some s' \<and> ?P d s'"
  proof (rule for_loop_upt_rule [where P = ?P])
    fix i s assume "i < d" and s: "s = (first_difference ^^ i) (unit_impulse d)"
    then have "length s = 2 * d + 1 - i" by (simp add: length_first_difference_pow unit_impulse_def)
    with \<open>i < d\<close> have "s \<noteq> []" by auto
    then show "\<exists>s'. (if s = [] then None else vecDiff (butlast s) (tl s)) = Some s'
        \<and> s' = (first_difference ^^ Suc i) (unit_impulse d)"
      using s by (simp add: vecDiff_slices)
  qed simp_all
  then show ?thesis by (simp add: stencil_def)
qed


lemma fill_row:
  fixes cs :: "real list"
  assumes len: "idx0 + length cs \<le> length data0" "length indices0 = length data0"
  shows "\<exists>data indices.
     for_loop [0..<length cs] (\<lambda>j (data, indices, indptr, idx). do {
             c \<leftarrow> slice_get cs (int j);
             data \<leftarrow> slice_set data (int idx) c;
             indices \<leftarrow> slice_set indices (int idx) (i + j);
             Some (data, indices, indptr, idx + 1)
           }) (data0, indices0, indptr0, idx0) = Some (data, indices, indptr0, idx0 + length cs)
     \<and> length data = length data0 \<and> length indices = length data0
     \<and> (\<forall>p<idx0. data ! p = data0 ! p \<and> indices ! p = indices0 ! p)
     \<and> (\<forall>t<length cs. data ! (idx0 + t) = cs ! t \<and> indices ! (idx0 + t) = i + t)"
proof -
  let ?body = "\<lambda>j (data, indices, indptr, idx). do {
             c \<leftarrow> slice_get cs (int j);
             data \<leftarrow> slice_set data (int idx) c;
             indices \<leftarrow> slice_set indices (int idx) (i + j);
             Some (data, indices, indptr, idx + 1)
           }"
  let ?P = "\<lambda>j (data, indices, indptr, idx). idx = idx0 + j \<and> indptr = indptr0
     \<and> length data = length data0 \<and> length indices = length data0
     \<and> (\<forall>p<idx0. data ! p = data0 ! p \<and> indices ! p = indices0 ! p)
     \<and> (\<forall>t<j. data ! (idx0 + t) = cs ! t \<and> indices ! (idx0 + t) = i + t)"
  have "\<exists>s'. for_loop [0..<length cs] ?body (data0, indices0, indptr0, idx0) = Some s' \<and> ?P (length cs) s'"
  proof (rule for_loop_upt_rule [where P = ?P])
    show "?P 0 (data0, indices0, indptr0, idx0)" using len by simp
  next
    fix j s assume j: "j < length cs" and P: "?P j s"
    obtain data indices indptr idx where s: "s = (data, indices, indptr, idx)"
      by (cases s) auto
    from P j len show "\<exists>s'. ?body j s = Some s' \<and> ?P (Suc j) s'"
      unfolding s
      by (auto simp: slice_get_def slice_set_def nth_list_update less_Suc_eq)
  qed simp
  then show ?thesis by auto
qed


lemma block_index_less: "i < k \<Longrightarrow> t < w \<Longrightarrow> i * w + t < k * (w::nat)"
proof -
  assume "i < k" "t < w"
  then have "i * w + t < i * w + w" by simp
  also have "\<dots> = Suc i * w" by simp
  also have "\<dots> \<le> k * w" using \<open>i < k\<close> by (intro mult_le_mono1) simp
  finally show ?thesis .
qed

lemma fill_rows:
  fixes cs :: "real list"
  assumes N: "r * length cs \<le> N" "length data0 = N" "length indices0 = N" "length indptr0 = r + 1"
  shows "\<exists>data indices indptr.
     for_loop [0..<r] (\<lambda>i (data, indices, indptr, idx). do {
         indptr \<leftarrow> slice_set indptr (int i) idx;
         for_loop [0..<length cs] (\<lambda>j (data, indices, indptr, idx). do {
             c \<leftarrow> slice_get cs (int j);
             data \<leftarrow> slice_set data (int idx) c;
             indices \<leftarrow> slice_set indices (int idx) (i + j);
             Some (data, indices, indptr, idx + 1)
           }) (data, indices, indptr, idx)
       }) (data0, indices0, indptr0, 0) = Some (data, indices, indptr, r * length cs)
     \<and> length data = N \<and> length indices = N \<and> length indptr = r + 1
     \<and> (\<forall>i<r. indptr ! i = i * length cs)
     \<and> (\<forall>i<r. \<forall>t<length cs. data ! (i * length cs + t) = cs ! t \<and> indices ! (i * length cs + t) = i + t)"
proof -
  let ?w = "length cs"
  let ?inner = "\<lambda>i j (data, indices, indptr, idx). do {
             c \<leftarrow> slice_get cs (int j);
             data \<leftarrow> slice_set data (int idx) c;
             indices \<leftarrow> slice_set indices (int idx) (i + j);
             Some (data, indices, indptr, idx + 1)
           }"
  let ?body = "\<lambda>i (data, indices, indptr, idx). do {
         indptr \<leftarrow> slice_set indptr (int i) idx;
         for_loop [0..<length cs] (?inner i) (data, indices, indptr, idx)
       }"
  let ?Q = "\<lambda>k (data, indices, indptr, idx). idx = k * ?w
     \<and> length data = N \<and> length indices = N \<and> length indptr = r + 1
     \<and> (\<forall>i<k. indptr ! i = i * ?w)
     \<and> (\<forall>i<k. \<forall>t<?w. data ! (i * ?w + t) = cs ! t \<and> indices ! (i * ?w + t) = i + t)"
  have "\<exists>s'. for_loop [0..<r] ?body (data0, indices0, indptr0, 0) = Some s' \<and> ?Q r s'"
  proof (rule for_loop_upt_rule [where P = ?Q])
    show "?Q 0 (data0, indices0, indptr0, 0)" using N by simp
  next
    fix k s assume k: "k < r" and Q: "?Q k s"
    obtain data indices indptr idx where s: "s = (data, indices, indptr, idx)"
      by (cases s) auto
    from Q have q: "idx = k * ?w" "length data = N" "length indices = N" "length indptr = r + 1"
      "\<forall>i<k. indptr ! i = i * ?w"
      "\<forall>i<k. \<forall>t<?w. data ! (i * ?w + t) = cs ! t \<and> indices ! (i * ?w + t) = i + t"
      unfolding s by auto
    have "Suc k * ?w \<le> r * ?w" using k by (intro mult_le_mono1) simp
    then have fit: "k * ?w + ?w \<le> length data" using N q by simp
    have il: "length indices = length data" using q by simp
    from fill_row [OF fit il, of k "indptr[k := idx]"]
    obtain data' indices' where row:
      "for_loop [0..<?w] (?inner k) (data, indices, indptr[k := idx], k * ?w)
         = Some (data', indices', indptr[k := idx], k * ?w + ?w)"
      "length data' = length data" "length indices' = length data"
      "\<forall>p<k * ?w. data' ! p = data ! p \<and> indices' ! p = indices ! p"
      "\<forall>t<?w. data' ! (k * ?w + t) = cs ! t \<and> indices' ! (k * ?w + t) = k + t"
      by blast
    have set: "slice_set indptr (int k) idx = Some (indptr[k := idx])"
      using k q by (simp add: slice_set_def)
    have old: "data' ! (i * ?w + t) = cs ! t \<and> indices' ! (i * ?w + t) = i + t"
      if "i < k" "t < ?w" for i t
      using that row(4) q(6) block_index_less [of i k t ?w] by simp
    have "?Q (Suc k) (data', indices', indptr[k := idx], k * ?w + ?w)"
      using q row(2,3,5) old k by (auto simp: less_Suc_eq nth_list_update)
    then show "\<exists>s'. ?body k s = Some s' \<and> ?Q (Suc k) s'"
      unfolding s using set row(1) q(1) by simp
  qed simp
  then show ?thesis by auto
qed


lemma dense_cols_nth: "a \<noteq> [] \<Longrightarrow> dense_cols a = length (a ! 0)"
  by (cases a) (simp_all add: dense_cols_def)

lemma ToDense_row:
  fixes cs :: "real list"
  assumes shape: "length mat0 = r" "\<forall>row<r. length (mat0 ! row) = n" "i < r" "i + w \<le> n"
    and block: "lo + w \<le> length ind" "lo + w \<le> length dat"
      "\<forall>t<w. dat ! (lo + t) = cs ! t \<and> ind ! (lo + t) = i + t"
  shows "\<exists>mat. for_loop [lo..<lo + w] (\<lambda>j mat. do {
             col \<leftarrow> slice_get ind (int j);
             v \<leftarrow> slice_get dat (int j);
             Dense_Set mat i col v
           }) mat0 = Some mat
     \<and> length mat = r \<and> (\<forall>row<r. length (mat ! row) = n)
     \<and> (\<forall>row<r. row \<noteq> i \<longrightarrow> mat ! row = mat0 ! row)
     \<and> (\<forall>col<n. mat ! i ! col = (if i \<le> col \<and> col < i + w then cs ! (col - i) else mat0 ! i ! col))"
proof -
  let ?body = "\<lambda>j mat. do {
             col \<leftarrow> slice_get ind (int j);
             v \<leftarrow> slice_get dat (int j);
             Dense_Set mat i col v
           }"
  let ?P = "\<lambda>j mat. length mat = r \<and> (\<forall>row<r. length (mat ! row) = n)
     \<and> (\<forall>row<r. row \<noteq> i \<longrightarrow> mat ! row = mat0 ! row)
     \<and> (\<forall>col<n. mat ! i ! col = (if i \<le> col \<and> col < i + (j - lo) then cs ! (col - i) else mat0 ! i ! col))"
  have "\<exists>s'. for_loop [lo..<lo + w] ?body mat0 = Some s' \<and> ?P (lo + w) s'"
  proof (rule for_loop_upt_rule [where P = ?P])
    show "?P lo mat0" using shape by simp
  next
    fix j mat assume j: "lo \<le> j" "j < lo + w" and P: "?P j mat"
    define t where "t = j - lo"
    have t: "t < w" "j = lo + t" using j by (auto simp: t_def)
    have jl: "j < length ind" "j < length dat" "dat ! j = cs ! t" "ind ! j = i + t"
      using block t by auto
    have g1: "slice_get ind (int j) = Some (i + t)" by (simp add: slice_get_def jl)
    have g2: "slice_get dat (int j) = Some (cs ! t)" by (simp add: slice_get_def jl)
    have ne: "mat \<noteq> []" using P shape by auto
    have cols: "dense_cols mat = n" using P shape dense_cols_nth [OF ne] by auto
    have set: "Dense_Set mat i (i + t) (cs ! t) = Some (mat[i := (mat ! i)[i + t := cs ! t]])"
      using P shape t cols by (simp add: Dense_Set_def dense_rows_def)
    have "?P (Suc j) (mat[i := (mat ! i)[i + t := cs ! t]])"
      using P shape t by (auto simp: nth_list_update less_Suc_eq Suc_diff_le)
    then show "\<exists>s'. ?body j mat = Some s' \<and> ?P (Suc j) s'"
      using g1 g2 set by simp
  qed simp
  then show ?thesis by auto
qed


lemma ToDense_banded:
  fixes cs :: "real list"
  assumes dims: "0 < r" "0 < n" "r + length cs \<le> n + 1" "csr_I c = int r" "csr_J c = int n"
    and ptr: "length (Indptr c) = r + 1" "\<forall>i\<le>r. Indptr c ! i = i * length cs"
    and dat: "r * length cs \<le> length (Ind c)" "r * length cs \<le> length (Data c)"
      "\<forall>i<r. \<forall>t<length cs. Data c ! (i * length cs + t) = cs ! t \<and> Ind c ! (i * length cs + t) = i + t"
  shows "\<exists>M. ToDense c = Some M \<and> banded r n cs M"
proof -
  let ?w = "length cs"
  let ?inner = "\<lambda>i j mat. do {
             col \<leftarrow> slice_get (Ind c) (int j);
             v \<leftarrow> slice_get (Data c) (int j);
             Dense_Set mat i col v
           }"
  let ?body = "\<lambda>i mat. do {
         lo \<leftarrow> slice_get (Indptr c) (int i);
         hi \<leftarrow> slice_get (Indptr c) (int i + 1);
         for_loop [lo..<hi] (?inner i) mat
       }"
  let ?Q = "\<lambda>k mat. length mat = r \<and> (\<forall>row<r. length (mat ! row) = n)
     \<and> (\<forall>i<k. \<forall>col<n. mat ! i ! col = (if i \<le> col \<and> col < i + ?w then cs ! (col - i) else 0))
     \<and> (\<forall>i<r. k \<le> i \<longrightarrow> mat ! i = replicate n 0)"
  let ?Z = "replicate r (replicate n (0::real))"
  have new: "NewDense (csr_I c) (csr_J c) = Some ?Z"
    using dims by (simp add: NewDense_def)
  have "\<exists>s'. for_loop [0..<r] ?body ?Z = Some s' \<and> ?Q r s'"
  proof (rule for_loop_upt_rule [where P = ?Q])
    show "?Q 0 ?Z" by simp
  next
    fix k mat assume k: "k < r" and Q: "?Q k mat"
    have lo: "slice_get (Indptr c) (int k) = Some (k * ?w)"
      using k ptr by (simp add: slice_get_def)
    have "nat (int k + 1) = Suc k" by simp
    then have hi: "slice_get (Indptr c) (int k + 1) = Some (k * ?w + ?w)"
      using k ptr by (simp add: slice_get_def)
    have fit: "Suc k * ?w \<le> r * ?w" using k by (intro mult_le_mono1) simp
    have b1: "k * ?w + ?w \<le> length (Ind c)" and b2: "k * ?w + ?w \<le> length (Data c)"
      using fit dat(1,2) by simp_all
    have b3: "\<forall>t<?w. Data c ! (k * ?w + t) = cs ! t \<and> Ind c ! (k * ?w + t) = k + t"
      using dat(3) k by simp
    have kw: "k + ?w \<le> n" using k dims by simp
    from Q have sh: "length mat = r" "\<forall>row<r. length (mat ! row) = n" by auto
    from ToDense_row [OF sh k kw b1 b2 b3]
    obtain mat' where row: "for_loop [k * ?w..<k * ?w + ?w] (?inner k) mat = Some mat'"
      "length mat' = r" "\<forall>row<r. length (mat' ! row) = n"
      "\<forall>row<r. row \<noteq> k \<longrightarrow> mat' ! row = mat ! row"
      "\<forall>col<n. mat' ! k ! col = (if k \<le> col \<and> col < k + ?w then cs ! (col - k) else mat ! k ! col)"
      by blast
    have zero: "mat ! k = replicate n 0" using Q k by simp
    have "?Q (Suc k) mat'"
      using Q row(2-5) k zero by (auto simp: less_Suc_eq)
    then show "\<exists>s'. ?body k mat = Some s' \<and> ?Q (Suc k) s'"
      using lo hi row(1) by simp
  qed simp
  then obtain M where M: "for_loop [0..<r] ?body ?Z = Some M" "?Q r M" by blast
  have "ToDense c = Some M"
    using new M(1) ptr(1) by (simp add: ToDense_def)
  moreover have "banded r n cs M" using M(2) by (simp add: banded_def)
  ultimately show ?thesis by blast
qed


lemma differenceMatrix_valid:
  assumes d: "d < n"
  shows "\<exists>D. differenceMatrix n (int d) = Some D \<and> csr_I D = int (n - d) \<and> csr_J D = int n
     \<and> length (Indptr D) = n - d + 1 \<and> (\<forall>i\<le>n - d. Indptr D ! i = i * length (stencil d))
     \<and> length (Ind D) = (n - d) * n \<and> length (Data D) = (n - d) * n
     \<and> (\<forall>i<n - d. \<forall>t<length (stencil d).
           Data D ! (i * length (stencil d) + t) = stencil d ! t \<and> Ind D ! (i * length (stencil d) + t) = i + t)"
proof -
  let ?cs = "stencil d"
  let ?r = "n - d"
  let ?N = "?r * n"
  have w: "length ?cs = d + 1" by (rule length_stencil)
  have c0: "make_slice (2 * int d + 1) (0::real) = Some (replicate (2 * d + 1) 0)"
    by (simp add: make_slice_def nat_add_distrib nat_mult_distrib del: replicate_Suc)
  have "(replicate (2 * d + 1) (0::real))[d := 1] = unit_impulse d"
    by (rule nth_equalityI) (simp_all add: unit_impulse_def nth_list_update del: upt_Suc replicate_Suc)
  then have c1: "slice_set (replicate (2 * d + 1) (0::real)) (int d) 1 = Some (unit_impulse d)"
    by (simp add: slice_set_def del: replicate_Suc)
  have nr: "int n - int d = int ?r" using d by simp
  have pos: "\<not> int ?r * int n < 0" and sz: "nat (int ?r * int n) = ?N"
    by (simp_all add: not_less nat_mult_distrib)
  have m1: "make_slice (int ?r * int n) (0::real) = Some (replicate ?N 0)"
    unfolding make_slice_def using pos sz by simp
  have m2: "make_slice (int ?r * int n) (0::nat) = Some (replicate ?N 0)"
    unfolding make_slice_def using pos sz by simp
  have m3: "make_slice (int ?r + 1) (0::nat) = Some (replicate (?r + 1) 0)"
    by (simp add: make_slice_def nat_add_distrib del: replicate_Suc)
  have bound: "nat (int d + 1) = length ?cs" using w by simp
  have "?r * (d + 1) \<le> ?r * n" using d by (intro mult_le_mono2) simp
  then have N: "?r * length ?cs \<le> ?N" using w by simp
  from fill_rows [OF N, of "replicate ?N 0" "replicate ?N 0" "replicate (?r + 1) 0"]
  obtain data indices indptr where fill:
    "for_loop [0..<?r] (\<lambda>i (data, indices, indptr, idx). do {
         indptr \<leftarrow> slice_set indptr (int i) idx;
         for_loop [0..<length ?cs] (\<lambda>j (data, indices, indptr, idx). do {
             c \<leftarrow> slice_get ?cs (int j);
             data \<leftarrow> slice_set data (int idx) c;
             indices \<leftarrow> slice_set indices (int idx) (i + j);
             Some (data, indices, indptr, idx + 1)
           }) (data, indices, indptr, idx)
       }) (replicate ?N 0, replicate ?N 0, replicate (?r + 1) 0, 0)
      = Some (data, indices, indptr, ?r * length ?cs)"
    "length data = ?N" "length indices = ?N" "length indptr = ?r + 1"
    "\<forall>i<?r. indptr ! i = i * length ?cs"
    "\<forall>i<?r. \<forall>t<length ?cs. data ! (i * length ?cs + t) = ?cs ! t \<and> indices ! (i * length ?cs + t) = i + t"
    by (auto simp del: replicate_Suc)
  have last: "slice_set indptr (int ?r) (?r * length ?cs) = Some (indptr[?r := ?r * length ?cs])"
    using fill(4) by (simp add: slice_set_def)
  let ?D = "NewCSR (int ?r) (int n) (indptr[?r := ?r * length ?cs]) indices data"
  have "differenceMatrix n (int d) = Some ?D"
    unfolding differenceMatrix_def
    by (simp only: c0 c1 nr m1 m2 m3 bound fill(1) last coeffs_loop nat_int Let_def
          bind.bind_lunit prod.case)
  moreover have "\<forall>i\<le>?r. (indptr[?r := ?r * length ?cs]) ! i = i * length ?cs"
    using fill(4,5) by (auto simp: nth_list_update le_less)
  ultimately show ?thesis
    using fill(2,3,4,6) by (auto simp: NewCSR_def)
qed


lemma ToDense_differenceMatrix:
  assumes d: "d < n"
  shows "\<exists>D M. differenceMatrix n (int d) = Some D \<and> csr_I D = int (n - d) \<and> csr_J D = int n
     \<and> ToDense D = Some M \<and> banded (n - d) n (stencil d) M"
proof -
  from differenceMatrix_valid [OF d] obtain D where D: "differenceMatrix n (int d) = Some D"
    "csr_I D = int (n - d)" "csr_J D = int n"
    "length (Indptr D) = n - d + 1" "\<forall>i\<le>n - d. Indptr D ! i = i * length (stencil d)"
    "length (Ind D) = (n - d) * n" "length (Data D) = (n - d) * n"
    "\<forall>i<n - d. \<forall>t<length (stencil d).
           Data D ! (i * length (stencil d) + t) = stencil d ! t \<and> Ind D ! (i * length (stencil d) + t) = i + t"
    by blast
  have w: "length (stencil d) = d + 1" by (rule length_stencil)
  have "(n - d) * (d + 1) \<le> (n - d) * n" using d by (intro mult_le_mono2) simp
  then have b: "(n - d) * length (stencil d) \<le> length (Ind D)" "(n - d) * length (stencil d) \<le> length (Data D)"
    using D(6,7) w by simp_all
  have "\<exists>M. ToDense D = Some M \<and> banded (n - d) n (stencil d) M"
    by (rule ToDense_banded [OF _ _ _ D(2,3,4,5) b D(8)]) (use d w in simp_all)
  with D(1,2,3) show ?thesis by blast
qed

section \<open>The matrix built by speye\<close>

lemma speye_value:
  "speye n = Some (NewCSR (int n) (int n) [0..<n] [0..<n + 1] (replicate n 1))"
proof -
  let ?body = "\<lambda>i (data, indices, indptr). do {
         data \<leftarrow> slice_set data (int i) (1::real);
         indices \<leftarrow> slice_set indices (int i) i;
         indptr \<leftarrow> slice_set indptr (int i) i;
         Some (data, indices, indptr)
       }"
  let ?P = "\<lambda>k (data, indices, indptr). length data = n \<and> length indices = n \<and> length indptr = n + 1
     \<and> (\<forall>i<k. data ! i = (1::real) \<and> indices ! i = i \<and> indptr ! i = i)"
  let ?s0 = "(replicate n (0::real), replicate n (0::nat), replicate (n + 1) (0::nat))"
  have "\<exists>s'. for_loop [0..<n] ?body ?s0 = Some s' \<and> ?P n s'"
  proof (rule for_loop_upt_rule [where P = ?P])
    show "?P 0 ?s0" by simp
  next
    fix k s assume k: "k < n" and P: "?P k s"
    obtain data indices indptr where s: "s = (data, indices, indptr)" by (cases s) auto
    from P k show "\<exists>s'. ?body k s = Some s' \<and> ?P (Suc k) s'"
      unfolding s by (auto simp: slice_set_def nth_list_update less_Suc_eq)
  qed simp
  then obtain data indices indptr where loop: "for_loop [0..<n] ?body ?s0 = Some (data, indices, indptr)"
    and P: "?P n (data, indices, indptr)" by auto
  have d: "data = replicate n 1" using P by (auto intro: nth_equalityI)
  have i: "indices = [0..<n]" using P by (auto intro: nth_equalityI)
  have p: "indptr[n := n] = [0..<n + 1]"
    using P by (auto intro!: nth_equalityI simp: nth_list_update nth_append less_Suc_eq simp del: upt_Suc)
  have m1: "make_slice (int n) (0::real) = Some (replicate n 0)"
    and m2: "make_slice (int n) (0::nat) = Some (replicate n 0)"
    and m3: "make_slice (int n + 1) (0::nat) = Some (replicate (n + 1) 0)"
    by (simp_all add: make_slice_def nat_add_distrib del: replicate_Suc)
  have last: "slice_set indptr (int n) n = Some (indptr[n := n])"
    using P by (simp add: slice_set_def)
  have "speye n = Some (NewCSR (int n) (int n) indices (indptr[n := n]) data)"
    unfolding speye_def
    by (simp only: m1 m2 m3 loop last bind.bind_lunit prod.case)
  then show ?thesis by (simp only: d i p)
qed

lemma ToDense_speye:
  assumes n: "0 < n"
  shows "speye n \<bind> ToDense = Some (speye_dense n)"
proof -
  let ?c = "NewCSR (int n) (int n) [0..<n] [0..<n + 1] (replicate n 1)"
  let ?body = "\<lambda>i mat. do {
         lo \<leftarrow> slice_get (Indptr ?c) (int i);
         hi \<leftarrow> slice_get (Indptr ?c) (int i + 1);
         for_loop [lo..<hi] (\<lambda>j mat. do {
             col \<leftarrow> slice_get (Ind ?c) (int j);
             v \<leftarrow> slice_get (Data ?c) (int j);
             Dense_Set mat i col v
           }) mat
       }"
  let ?Q = "\<lambda>k mat. length mat = n \<and> (\<forall>i<n. length (mat ! i) = n
     \<and> (\<forall>j<n. mat ! i ! j = (if i = j \<and> i < k then (1::real) else 0)))"
  let ?Z = "replicate n (replicate n (0::real))"
  have new: "NewDense (csr_I ?c) (csr_J ?c) = Some ?Z"
    using n by (simp add: NewDense_def NewCSR_def)
  have "\<exists>s'. for_loop [0..<n - 1] ?body ?Z = Some s' \<and> ?Q (n - 1) s'"
  proof (rule for_loop_upt_rule [where P = ?Q])
    show "?Q 0 ?Z" by simp
  next
    fix k mat assume k: "k < n - 1" and Q: "?Q k mat"
    have "nat (int k + 1) = Suc k" by simp
    then have lo: "slice_get (Indptr ?c) (int k) = Some k"
      and hi: "slice_get (Indptr ?c) (int k + 1) = Some (Suc k)"
      using k by (simp_all add: slice_get_def NewCSR_def)
    have col: "slice_get (Ind ?c) (int k) = Some k" and v: "slice_get (Data ?c) (int k) = Some 1"
      using k by (simp_all add: slice_get_def NewCSR_def nth_append del: upt_Suc)
    have ne: "mat \<noteq> []" using Q n by auto
    have cols: "dense_cols mat = n" using Q n dense_cols_nth [OF ne] by auto
    have set: "Dense_Set mat k k 1 = Some (mat[k := (mat ! k)[k := 1]])"
      using Q k cols by (simp add: Dense_Set_def dense_rows_def)
    have "?Q (Suc k) (mat[k := (mat ! k)[k := 1]])"
      using Q k by (auto simp: nth_list_update less_Suc_eq)
    then show "\<exists>s'. ?body k mat = Some s' \<and> ?Q (Suc k) s'"
      using lo hi col v set by simp
  qed simp
  then obtain M where M: "for_loop [0..<n - 1] ?body ?Z = Some M" "?Q (n - 1) M" by blast
  have "M = speye_dense n"
    using M(2) by (auto simp: speye_dense_def intro!: nth_equalityI)
  moreover have "length (Indptr ?c) - 1 = n - 1" by (simp add: NewCSR_def)
  ultimately show ?thesis
    using new M(1) by (simp add: speye_value ToDense_def)
qed


section \<open>The matrix handed to the factorization\<close>

lemma banded_difference_dense:
  "banded (m - d) m (stencil d) M \<Longrightarrow> M = difference_dense m d"
  unfolding banded_def difference_dense_def length_stencil
  by (auto intro!: nth_equalityI)

lemma ToDense_difference_dense:
  assumes "d < m"
  shows "\<exists>D. differenceMatrix m (int d) = Some D \<and> ToDense D = Some (difference_dense m d)"
  using ToDense_differenceMatrix [OF assms] banded_difference_dense by blast

lemma ToDense_speye_value:
  "0 < n \<Longrightarrow> ToDense (NewCSR (int n) (int n) [0..<n] [0..<n + 1] (replicate n 1)) = Some (speye_dense n)"
  using ToDense_speye [of n] by (simp add: speye_value)

lemma SetSym_row:
  fixes A :: dense
  assumes shape: "length s0 = m" "\<forall>row<m. length (s0 ! row) = m" "i < m"
    and A: "length A = m" "\<forall>row<m. length (A ! row) = m"
  shows "\<exists>s. for_loop [i..<m] (\<lambda>j sym'. do {
             v \<leftarrow> Dense_At A i j;
             SetSym sym' i j v
           }) s0 = Some s
     \<and> length s = m \<and> (\<forall>row<m. length (s ! row) = m)
     \<and> (\<forall>row<m. row \<noteq> i \<longrightarrow> s ! row = s0 ! row)
     \<and> (\<forall>c<m. s ! i ! c = (if i \<le> c then A ! i ! c else s0 ! i ! c))"
proof -
  let ?body = "\<lambda>j sym'. do {
             v \<leftarrow> Dense_At A i j;
             SetSym sym' i j v
           }"
  let ?P = "\<lambda>j s. length s = m \<and> (\<forall>row<m. length (s ! row) = m)
     \<and> (\<forall>row<m. row \<noteq> i \<longrightarrow> s ! row = s0 ! row)
     \<and> (\<forall>c<m. s ! i ! c = (if i \<le> c \<and> c < j then A ! i ! c else s0 ! i ! c))"
  have ne: "A \<noteq> []" using A shape by auto
  have cols: "dense_cols A = m" using A shape dense_cols_nth [OF ne] by auto
  have "\<exists>s'. for_loop [i..<m] ?body s0 = Some s' \<and> ?P m s'"
  proof (rule for_loop_upt_rule [where P = ?P])
    show "?P i s0" using shape by simp
  next
    fix j s assume j: "i \<le> j" "j < m" and P: "?P j s"
    have at: "Dense_At A i j = Some (A ! i ! j)"
      using shape j A cols by (simp add: Dense_At_def dense_rows_def)
    have set: "SetSym s i j (A ! i ! j) = Some (s[i := (s ! i)[j := A ! i ! j]])"
      using P shape j by (simp add: SetSym_def min_def max_def)
    have "?P (Suc j) (s[i := (s ! i)[j := A ! i ! j]])"
      using P shape j by (auto simp: nth_list_update less_Suc_eq)
    then show "\<exists>s'. ?body j s = Some s' \<and> ?P (Suc j) s'"
      using at set by simp
  qed (use shape in simp)
  then show ?thesis by auto
qed

lemma SetSym_rows:
  fixes A :: dense
  assumes m: "0 < m" and A: "length A = m" "\<forall>row<m. length (A ! row) = m"
  shows "\<exists>s. for_loop [0..<m] (\<lambda>i sym'.
         for_loop [i..<m] (\<lambda>j sym'. do {
             v \<leftarrow> Dense_At A i j;
             SetSym sym' i j v
           }) sym') (replicate m (replicate m 0)) = Some s
     \<and> length s = m
     \<and> (\<forall>i<m. length (s ! i) = m \<and> (\<forall>c<m. s ! i ! c = (if i \<le> c then A ! i ! c else 0)))"
proof -
  let ?body = "\<lambda>i sym'.
         for_loop [i..<m] (\<lambda>j sym'. do {
             v \<leftarrow> Dense_At A i j;
             SetSym sym' i j v
           }) sym'"
  let ?Q = "\<lambda>k s. length s = m \<and> (\<forall>row<m. length (s ! row) = m)
     \<and> (\<forall>i<k. \<forall>c<m. s ! i ! c = (if i \<le> c then A ! i ! c else 0))
     \<and> (\<forall>i<m. k \<le> i \<longrightarrow> s ! i = replicate m 0)"
  have "\<exists>s'. for_loop [0..<m] ?body (replicate m (replicate m 0)) = Some s' \<and> ?Q m s'"
  proof (rule for_loop_upt_rule [where P = ?Q])
    show "?Q 0 (replicate m (replicate m 0))" by simp
  next
    fix k s assume k: "k < m" and Q: "?Q k s"
    from Q have sh: "length s = m" "\<forall>row<m. length (s ! row) = m" by auto
    from SetSym_row [OF sh k A] obtain s' where row: "?body k s = Some s'"
      "length s' = m" "\<forall>row<m. length (s' ! row) = m"
      "\<forall>row<m. row \<noteq> k \<longrightarrow> s' ! row = s ! row"
      "\<forall>c<m. s' ! k ! c = (if k \<le> c then A ! k ! c else s ! k ! c)"
      by blast
    have zero: "s ! k = replicate m 0" using Q k by simp
    have "?Q (Suc k) s'"
      using Q row(2-5) k zero by (auto simp: less_Suc_eq)
    then show "\<exists>s'. ?body k s = Some s' \<and> ?Q (Suc k) s'"
      using row(1) by simp
  qed simp
  then show ?thesis by auto
qed


lemma difference_dense_shape:
  "length (difference_dense m d) = m - d"
  "i < m - d \<Longrightarrow> length (difference_dense m d ! i) = m"
  by (simp_all add: difference_dense_def)

lemma speye_dense_shape:
  "length (speye_dense m) = m"
  "i < m \<Longrightarrow> length (speye_dense m ! i) = m"
  by (simp_all add: speye_dense_def)

lemma WESmoother_sym_valid:
  assumes d: "d < m"
  shows "\<exists>s. WESmoother_sym m lambda (int d) = Some s \<and> length s = m
     \<and> (\<forall>i<m. length (s ! i) = m
          \<and> (\<forall>j<m. s ! i ! j =
                (if i \<le> j then assembled (speye_dense m) lambda (difference_dense m d) i j else 0)))"
proof -
  let ?E = "speye_dense m" and ?D = "difference_dense m d"
  let ?r = "m - d"
  have m: "0 < m" and r: "0 < ?r" using d by simp_all
  from ToDense_difference_dense [OF d] obtain Dc where
    Dc: "differenceMatrix m (int d) = Some Dc" "ToDense Dc = Some ?D" by blast
  have E: "ToDense (NewCSR (int m) (int m) [0..<m] [0..<m + 1] (replicate m 1)) = Some ?E"
    by (rule ToDense_speye_value [OF m])
  have Dne: "?D \<noteq> []" using r difference_dense_shape(1) [of m d] by auto
  have Drows: "dense_rows ?D = ?r" by (simp add: dense_rows_def difference_dense_shape)
  have Dcols: "dense_cols ?D = m"
    using dense_cols_nth [OF Dne] difference_dense_shape(2) [of 0 m d] r by simp
  let ?T = "Dense_T ?D"
  have T: "?T = map (\<lambda>j. map (\<lambda>i. ?D ! i ! j) [0..<?r]) [0..<m]"
    by (simp only: Dense_T_def Drows Dcols)
  have Tne: "?T \<noteq> []" using m T by simp
  have Tcols: "dense_cols ?T = ?r" using dense_cols_nth [OF Tne] m by (simp add: T)
  have Trows: "dense_rows ?T = m" by (simp add: T dense_rows_def)
  let ?G = "map (\<lambda>i. map (\<lambda>j. \<Sum>k\<leftarrow>[0..<?r]. ?T ! i ! k * ?D ! k ! j) [0..<m]) [0..<m]"
  have mul: "Dense_Mul ?T ?D = Some ?G"
    unfolding Dense_Mul_def Tcols Trows Drows Dcols by simp
  let ?S = "Dense_Scale lambda ?G"
  have Sne: "?S \<noteq> []" using m by (simp add: Dense_Scale_def)
  have Srows: "dense_rows ?S = m" by (simp add: Dense_Scale_def dense_rows_def)
  have Scols: "dense_cols ?S = m" using dense_cols_nth [OF Sne] m by (simp add: Dense_Scale_def)
  have Ene: "?E \<noteq> []" using m speye_dense_shape(1) [of m] by auto
  have Erows: "dense_rows ?E = m" by (simp add: dense_rows_def speye_dense_shape)
  have Ecols: "dense_cols ?E = m" using dense_cols_nth [OF Ene] speye_dense_shape(2) [of 0 m] m by simp
  let ?A = "map (\<lambda>i. map (\<lambda>j. ?E ! i ! j + ?S ! i ! j) [0..<m]) [0..<m]"
  have add: "Dense_Add ?E ?S = Some ?A"
    unfolding Dense_Add_def Erows Ecols Srows Scols by simp
  have Arows: "dense_rows ?A = m" by (simp add: dense_rows_def)
  have Ash: "length ?A = m" "\<forall>row<m. length (?A ! row) = m" by simp_all
  have new: "NewSymDense (int m) = Some (replicate m (replicate m 0))"
    using m by (simp add: NewSymDense_def)
  from SetSym_rows [OF m Ash] obtain s where s:
    "for_loop [0..<m] (\<lambda>i sym'.
         for_loop [i..<m] (\<lambda>j sym'. do {
             v \<leftarrow> Dense_At ?A i j;
             SetSym sym' i j v
           }) sym') (replicate m (replicate m 0)) = Some s"
    "length s = m"
    "\<forall>i<m. length (s ! i) = m \<and> (\<forall>c<m. s ! i ! c = (if i \<le> c then ?A ! i ! c else 0))"
    by blast
  have run: "WESmoother_sym m lambda (int d) = Some s"
    unfolding WESmoother_sym_def
    by (simp only: speye_value Dc E mul add Arows new s(1) bind.bind_lunit Let_def)
  have ent: "?A ! i ! j = assembled ?E lambda ?D i j" if "i < m" "j < m" for i j
  proof -
    have "map (\<lambda>k. ?T ! i ! k * ?D ! k ! j) [0..<?r] = map (\<lambda>k. ?D ! k ! i * ?D ! k ! j) [0..<?r]"
      using that by (intro map_cong) (simp_all add: T)
    then have eq: "(\<Sum>k\<leftarrow>[0..<?r]. ?T ! i ! k * ?D ! k ! j) = (\<Sum>k\<leftarrow>[0..<?r]. ?D ! k ! i * ?D ! k ! j)"
      by (rule arg_cong)
    show ?thesis
      using that by (simp add: assembled_def Dense_Scale_def difference_dense_shape(1) eq)
  qed
  show ?thesis
    using run s(2,3) ent by auto
qed

section \<open>The shape of a call\<close>

lemma WESmoother_pure:
  "WESmoother y lambda d =
     (case WESmoother_sym (length y) lambda d of
        None \<Rightarrow> None
      | Some s \<Rightarrow>
          (case Factorize s of
             None \<Rightarrow> Some (None, Some (ErrorsNew ''cholesky decomposition failed''))
           | Some c \<Rightarrow>
               if y = [] \<or> chol_n c \<noteq> length y then None
               else Some (Some (chol_solve (chol_n c) (chol_U c) y),
                          if chol_cond c > ConditionTolerance then Some (Condition (chol_cond c)) else None)))"
  by (auto simp: WESmoother_def WESmoother_heap_def alloc_def NewVecDense_def SolveVecTo_def
        Let_def split: option.splits)

lemma Factorize_n: "Factorize s = Some c \<Longrightarrow> chol_n c = length s"
  by (auto simp: Factorize_def Let_def split: option.splits)

lemma length_Dtrsv_Trans: "length (Dtrsv_Trans n u x) = length x"
proof -
  have inner: "length (fold (\<lambda>j x. x[j := f j x]) js x) = length x"
    for js and f :: "nat \<Rightarrow> real list \<Rightarrow> real" and x :: "real list"
    by (induction js arbitrary: x) simp_all
  have "length (fold (\<lambda>i x. let xi = x ! i * (1 / u ! i ! i); x = x[i := xi]
                 in fold (\<lambda>j x. x[j := x ! j - u ! i ! j * xi]) [i + 1..<n] x) is x) = length x" for "is"
    by (induction "is" arbitrary: x) (simp_all add: Let_def inner)
  then show ?thesis by (simp add: Dtrsv_Trans_def)
qed

lemma length_Dtrsv_NoTrans: "length (Dtrsv_NoTrans n u x) = length x"
proof -
  have "length (fold (\<lambda>i x. let s = (\<Sum>j\<leftarrow>[i + 1..<n]. x ! j * u ! i ! j)
                 in x[i := (x ! i - s) / u ! i ! i]) is x) = length x" for "is"
    by (induction "is" arbitrary: x) (simp_all add: Let_def)
  then show ?thesis by (simp add: Dtrsv_NoTrans_def)
qed

lemma length_chol_solve: "length (chol_solve n u b) = length b"
  by (simp add: chol_solve_def length_Dtrsv_Trans length_Dtrsv_NoTrans)

lemma chol_solve_Nil: "chol_solve n u b = [] \<longleftrightarrow> b = []"
  using length_chol_solve [of n u b] by (metis length_0_conv)

lemma differenceMatrix_rows:
  "differenceMatrix n d = Some D \<Longrightarrow> csr_I D = int n - d"
  by (auto simp: differenceMatrix_def NewCSR_def Let_def bind_eq_Some_conv split: prod.splits)

lemma ToDense_no_rows: "csr_I D \<le> 0 \<Longrightarrow> ToDense D = None"
  by (simp add: ToDense_def NewDense_def)

lemma WESmoother_sym_invalid:
  assumes "int m \<le> d"
  shows "WESmoother_sym m lambda d = None"
proof (cases "differenceMatrix m d")
  case None
  then show ?thesis by (simp add: WESmoother_sym_def speye_value)
next
  case (Some D)
  then have "csr_I D \<le> 0" using differenceMatrix_rows [OF Some] assms by simp
  then have "ToDense D = None" by (rule ToDense_no_rows)
  then show ?thesis
    using Some by (simp add: WESmoother_sym_def speye_value split: Option.bind_split)
qed

lemma WESmoother_valid_returns:
  assumes "d < length y"
  shows "\<exists>z e. WESmoother y lambda (int d) = Some (z, e)"
proof -
  from WESmoother_sym_valid [OF assms] obtain s where
    s: "WESmoother_sym (length y) lambda (int d) = Some s" "length s = length y" by blast
  show ?thesis
  proof (cases "Factorize s")
    case None
    then show ?thesis using s by (simp add: WESmoother_pure)
  next
    case (Some c)
    then have "chol_n c = length y" using Factorize_n s by simp
    moreover have "y \<noteq> []" using assms by auto
    ultimately show ?thesis using s Some by (simp add: WESmoother_pure)
  qed
qed

section \<open>The factorization at smoothing strength zero\<close>

text \<open>
  \<^verbatim>\<open>sparse.NewCSR\<close> takes the row pointers before the column indices, and
  \<^verbatim>\<open>ToDense\<close> walks \<^verbatim>\<open>len(Indptr) - 1\<close> rows. \<^verbatim>\<open>speye\<close> passes its \<open>n\<close> column
  indices as row pointers, so only the first \<open>n - 1\<close> rows receive their one:
  the dense form is \<open>speye_dense n\<close>, with a zero last diagonal entry. The
  factorization passes over the first \<open>n - 1\<close> columns unchanged and stops at the
  last pivot.
\<close>

lemma sum_list_upt_zero:
  "(\<And>k. k < n \<Longrightarrow> f k = (0::real)) \<Longrightarrow> (\<Sum>k\<leftarrow>[0..<n]. f k) = 0"
  by (induction n) simp_all

lemma speye_dense_nth:
  "i < n \<Longrightarrow> j < n \<Longrightarrow> speye_dense n ! i ! j = (if i = j \<and> i + 1 < n then 1 else 0)"
  by (simp add: speye_dense_def)

lemma potf2_step_speye:
  assumes j: "j + 1 < n"
  shows "potf2_step n j (speye_dense n) = Some (speye_dense n)"
proof -
  let ?a = "speye_dense n"
  have z1: "(\<Sum>k\<leftarrow>[0..<j]. ?a ! k ! j * ?a ! k ! j) = 0"
    using j by (intro sum_list_upt_zero) (simp add: speye_dense_nth)
  have z2: "(\<Sum>k\<leftarrow>[0..<j]. ?a ! k ! i * ?a ! k ! j) = 0" if "i < n" for i
    using j that by (intro sum_list_upt_zero) (simp add: speye_dense_nth)
  have d: "?a ! j ! j = 1" using j by (simp add: speye_dense_nth)
  have "map (\<lambda>i. if i < j then ?a ! j ! i
                              else if i = j then 1
                              else (?a ! j ! i - (\<Sum>k\<leftarrow>[0..<j]. ?a ! k ! i * ?a ! k ! j)) * (1 / 1))
                         [0..<n] = ?a ! j"
    using j by (intro nth_equalityI) (simp_all add: z2 speye_dense_nth speye_dense_shape)
  then show ?thesis
    by (simp add: potf2_step_def z1 d Let_def)
qed

lemma Dpotf2_speye:
  assumes n: "0 < n"
  shows "Dpotf2 n (speye_dense n) = None"
proof -
  let ?a = "speye_dense n"
  from n obtain k where k: "n = Suc k" by (cases n) auto
  have "\<exists>s'. for_loop [0..<k] (potf2_step n) ?a = Some s' \<and> s' = ?a"
    by (rule for_loop_upt_rule [where P = "\<lambda>j s. s = ?a"]) (simp_all add: potf2_step_speye k)
  then have pre: "for_loop [0..<k] (potf2_step n) ?a = Some ?a" by simp
  have z1: "(\<Sum>j\<leftarrow>[0..<k]. ?a ! j ! k * ?a ! j ! k) = 0"
    using k by (intro sum_list_upt_zero) (simp add: speye_dense_nth)
  have d: "?a ! k ! k = 0" using k by (simp add: speye_dense_nth)
  have last: "potf2_step n k ?a = None"
    unfolding potf2_step_def z1 d by simp
  have "for_loop ([0..<k] @ [k]) (potf2_step n) ?a = None"
    by (simp add: for_loop_append pre last)
  then show ?thesis
    unfolding Dpotf2_def k by simp
qed

lemma WESmoother_sym_zero:
  assumes d: "d < m"
  shows "WESmoother_sym m 0 (int d) = Some (speye_dense m)"
proof -
  from WESmoother_sym_valid [OF d, of 0] obtain s where
    s: "WESmoother_sym m 0 (int d) = Some s" "length s = m"
      "\<forall>i<m. length (s ! i) = m
          \<and> (\<forall>j<m. s ! i ! j =
                (if i \<le> j then assembled (speye_dense m) 0 (difference_dense m d) i j else 0))"
    by blast
  have "s = speye_dense m"
  proof (rule nth_equalityI)
    show "length s = length (speye_dense m)" using s by (simp add: speye_dense_shape)
  next
    fix i assume "i < length s"
    then have i: "i < m" using s by simp
    show "s ! i = speye_dense m ! i"
      using s(3) i by (intro nth_equalityI) (auto simp: speye_dense_shape speye_dense_nth assembled_def)
  qed
  with s show ?thesis by simp
qed

lemma assembled_commute:
  "E ! i ! j = E ! j ! i \<Longrightarrow> assembled E lambda D i j = assembled E lambda D j i"
  by (simp add: assembled_def mult.commute)

lemma WESmoother_sym_entries:
  assumes d: "d < m"
  shows "\<exists>s. WESmoother_sym m lambda (int d) = Some s \<and> length s = m
     \<and> (\<forall>i<m. \<forall>j<m. SymDense_At s i j = assembled (speye_dense m) lambda (difference_dense m d) i j)"
proof -
  from WESmoother_sym_valid [OF d, of lambda] obtain s where
    s: "WESmoother_sym m lambda (int d) = Some s" "length s = m"
      "\<forall>i<m. length (s ! i) = m
          \<and> (\<forall>j<m. s ! i ! j =
                (if i \<le> j then assembled (speye_dense m) lambda (difference_dense m d) i j else 0))"
    by blast
  have "SymDense_At s i j = assembled (speye_dense m) lambda (difference_dense m d) i j"
    if "i < m" "j < m" for i j
  proof (cases "i \<le> j")
    case True
    then show ?thesis using s(3) that by (simp add: SymDense_At_def min_def max_def)
  next
    case False
    then have "SymDense_At s i j = assembled (speye_dense m) lambda (difference_dense m d) j i"
      using s(3) that by (simp add: SymDense_At_def min_def max_def)
    also have "\<dots> = assembled (speye_dense m) lambda (difference_dense m d) i j"
      using that False by (intro assembled_commute) (simp add: speye_dense_nth)
    finally show ?thesis .
  qed
  with s(1,2) show ?thesis by blast
qed

section \<open>Evaluating the smoother on concrete series\<close>

lemmas chol_eval = potf2_step_def Dpotf2_def Dtrsv_Trans_def Dtrsv_NoTrans_def chol_solve_def
  Lansy_def unit_vec_def inverse_norm_def Factorize_def ConditionTolerance_def SymDense_At_def

lemma sym_of_single_series: "WESmoother_sym (Suc 0) lambda 0 = Some [[lambda]]"
proof -
  have "(0::nat) < 1" by simp
  from WESmoother_sym_valid [OF this, of lambda] obtain s where
    s: "WESmoother_sym 1 lambda (int 0) = Some s" "length s = 1" "length (s ! 0) = 1"
      "s ! 0 ! 0 = assembled (speye_dense 1) lambda (difference_dense 1 0) 0 0"
    by auto
  have "assembled (speye_dense 1) lambda (difference_dense 1 0) 0 0 = lambda"
    by (simp add: assembled_def speye_dense_def difference_dense_def stencil_def unit_impulse_def)
  with s have "s = [[lambda]]"
    by (auto simp: length_Suc_conv)
  with s show ?thesis by simp
qed

lemma single_series_result:
  "0 < lambda \<Longrightarrow> WESmoother [v] lambda 0 = Some (Some [v / lambda], None)"
proof -
  assume pos: "0 < lambda"
  have len: "length [v] = Suc 0" by simp
  show ?thesis
    unfolding WESmoother_pure len sym_of_single_series using pos by (simp add: chol_eval)
qed

lemma single_series_fails:
  "lambda \<le> 0 \<Longrightarrow> WESmoother [v] lambda 0 = Some (None, Some (ErrorsNew ''cholesky decomposition failed''))"
proof -
  assume neg: "lambda \<le> 0"
  have len: "length [v] = Suc 0" by simp
  show ?thesis
    unfolding WESmoother_pure len sym_of_single_series using neg by (simp add: chol_eval)
qed

lemma speye_dense_single: "speye 1 \<bind> ToDense = Some [[0]]"
proof -
  have "(0::nat) < 1" by simp
  from ToDense_speye [OF this] show ?thesis by (simp add: speye_dense_def)
qed

lemma WESmoother_sym_2_tiny:
  "WESmoother_sym 2 (1 / 2 ^ 60) 0 = Some [[1 + 1 / 2 ^ 60, 0], [0, 1 / 2 ^ 60]]"
  by code_simp

lemma WESmoother_sym_2_1_0: "WESmoother_sym 2 1 0 = Some [[2, 0], [0, 1]]"
  by code_simp

section \<open>The claims\<close>

subsection \<open>The difference matrix and its stencil\<close>

text \<open>
  Claim C3. For every length \<open>m \<ge> 1\<close> and order \<open>d < m\<close>, \<^verbatim>\<open>differenceMatrix(m, d)\<close>
  returns a sparse matrix of \<open>m - d\<close> rows and \<open>m\<close> columns whose dense form has,
  in row \<open>i\<close>, the coefficient \<open>stencil[j]\<close> at column \<open>i + j\<close> for \<open>0 \<le> j \<le> d\<close> and
  zero elsewhere, where the stencil is the \<open>d\<close>-fold first difference of the unit
  impulse of length \<open>2d + 1\<close> and has \<open>d + 1\<close> coefficients; for \<open>d = 0\<close> the dense
  form is the \<open>m \<times> m\<close> identity.
\<close>

theorem differenceMatrix_stencil:
  assumes "d < m"
  shows "\<exists>D M. differenceMatrix m (int d) = Some D \<and> csr_I D = int m - int d \<and> csr_J D = int m
     \<and> ToDense D = Some M \<and> length M = m - d \<and> length (stencil d) = d + 1
     \<and> (\<forall>i<m - d. length (M ! i) = m
          \<and> (\<forall>c<m. M ! i ! c = (if i \<le> c \<and> c \<le> i + d then stencil d ! (c - i) else 0)))
     \<and> (d = 0 \<longrightarrow> M = identity m)"
proof -
  from ToDense_differenceMatrix [OF assms] obtain D M where
    D: "differenceMatrix m (int d) = Some D" "csr_I D = int (m - d)" "csr_J D = int m"
      "ToDense D = Some M" and M: "banded (m - d) m (stencil d) M"
    by blast
  have w: "length (stencil d) = d + 1" by (rule length_stencil)
  have rows: "length M = m - d" using M by (simp add: banded_def)
  have ent: "length (M ! i) = m
          \<and> (\<forall>c<m. M ! i ! c = (if i \<le> c \<and> c \<le> i + d then stencil d ! (c - i) else 0))"
    if "i < m - d" for i
    using M that w by (auto simp: banded_def)
  have "M = identity m" if "d = 0"
  proof (rule nth_equalityI)
    show "length M = length (identity m)" using rows that by (simp add: identity_def)
  next
    fix i assume "i < length M"
    then have i: "i < m" "i < m - d" using rows by simp_all
    have s0: "stencil 0 = [1]" by (simp add: stencil_def unit_impulse_def)
    show "M ! i = identity m ! i"
      using ent [OF i(2)] i(1) that s0 by (auto simp: identity_def intro!: nth_equalityI)
  qed
  then show ?thesis
    using D rows ent w assms by (intro exI [of _ D] exI [of _ M]) auto
qed

theorem differenceMatrix_stencil_witness:
  "(2::nat) < 5 \<and> (\<exists>D M. differenceMatrix 5 (int 2) = Some D \<and> ToDense D = Some M
      \<and> length M = 5 - 2 \<and> M ! 0 ! 1 = stencil 2 ! 1 \<and> M ! 0 ! 4 = 0)
   \<and> (0::nat) < 3 \<and> (\<exists>D. differenceMatrix 3 (int 0) = Some D \<and> ToDense D = Some (identity 3))"
proof -
  have h: "(2::nat) < 5" and h0: "(0::nat) < 3" by simp_all
  from differenceMatrix_stencil [OF h] have a: "\<exists>D M. differenceMatrix 5 (int 2) = Some D \<and> ToDense D = Some M
      \<and> length M = 5 - 2 \<and> M ! 0 ! 1 = stencil 2 ! 1 \<and> M ! 0 ! 4 = 0"
    by fastforce
  from differenceMatrix_stencil [OF h0] have b: "\<exists>D. differenceMatrix 3 (int 0) = Some D \<and> ToDense D = Some (identity 3)"
    by fastforce
  from a b h h0 show ?thesis by blast
qed

subsection \<open>The solved system\<close>

text \<open>
  Claim C1. When \<^verbatim>\<open>WESmoother(y, lambda, d)\<close> succeeds, the returned series is the
  solution \<open>z\<close> of \<open>A z = y\<close> with \<open>A = I + lambda \<cdot> D\<^sup>T D\<close>. The source does not
  do this: the matrix that \<^verbatim>\<open>speye\<close> hands over has a zero in its last diagonal
  entry. For the series \<open>[5]\<close>, \<open>lambda = 4\<close> and order \<open>0\<close> the call returns
  \<open>[5/4]\<close>, while \<open>I + 4 \<cdot> D\<^sup>T D\<close> is the \<open>1 \<times> 1\<close> matrix \<open>5\<close>, which maps \<open>5/4\<close> to
  \<open>25/4\<close> and not to \<open>5\<close>.
\<close>

theorem WESmoother_solves_other_system:
  "WESmoother [5] 4 0 = Some (Some [5 / 4], None)
   \<and> assembled (identity 1) 4 (difference_dense 1 0) 0 0 = 5
   \<and> assembled (identity 1) 4 (difference_dense 1 0) 0 0 * (5 / 4) \<noteq> 5"
proof -
  have a: "assembled (identity 1) 4 (difference_dense 1 0) 0 0 = 5"
    by (simp add: assembled_def identity_def difference_dense_def stencil_def unit_impulse_def)
  have "WESmoother [5] 4 0 = Some (Some [5 / 4], None)"
    by (simp add: single_series_result)
  with a show ?thesis by simp
qed

subsection \<open>Smoothing strength zero\<close>

text \<open>
  Claim C2. \<^verbatim>\<open>WESmoother(y, 0, d)\<close> succeeds and returns \<open>y\<close>. On the source the
  call fails instead, for every series and every order below its length: with
  \<open>lambda = 0\<close> the matrix handed to the factorization is what \<^verbatim>\<open>speye\<close> built,
  whose last pivot is zero, and the result is \<^verbatim>\<open>nil\<close> with the error
  \<^verbatim>\<open>cholesky decomposition failed\<close>. The series \<open>[1, 2, 1, 2, 1]\<close> with order \<open>2\<close>
  is one such call.
\<close>

theorem WESmoother_lambda_zero_fails:
  assumes "d < length y"
  shows "WESmoother y 0 (int d) = Some (None, Some (ErrorsNew ''cholesky decomposition failed''))"
proof -
  have "0 < length y" using assms by (cases y) simp_all
  then have "Dpotf2 (length y) (speye_dense (length y)) = None"
    by (rule Dpotf2_speye)
  then have "Factorize (speye_dense (length y)) = None"
    by (simp add: Factorize_def speye_dense_shape)
  then show ?thesis
    by (simp add: WESmoother_pure WESmoother_sym_zero [OF assms])
qed

theorem WESmoother_lambda_zero_fails_witness:
  "2 < length [1, 2, 1, 2, 1::real]
   \<and> WESmoother [1, 2, 1, 2, 1] 0 (int 2) = Some (None, Some (ErrorsNew ''cholesky decomposition failed''))"
proof -
  have h: "2 < length [1, 2, 1, 2, 1::real]" by simp
  from WESmoother_lambda_zero_fails [OF h] h show ?thesis by blast
qed

subsection \<open>The assembled matrix\<close>

text \<open>
  Claim C4. The symmetric matrix handed to the factorization is \<open>E + lambda \<cdot> D\<^sup>T D\<close>
  with \<open>E\<close> the \<open>m \<times> m\<close> identity, and it is positive definite. On the source,
  for a series of length \<open>1\<close>, \<open>lambda = 0\<close> and order \<open>0\<close>, the matrix is \<open>[[0]]\<close>,
  where the identity plus \<open>0 \<cdot> D\<^sup>T D\<close> is \<open>1\<close>; the quadratic form of \<open>[[0]]\<close>
  vanishes at the vector \<open>[1]\<close>, and the factorization rejects it.
\<close>

theorem WESmoother_sym_not_identity:
  "WESmoother_sym 1 0 0 = Some [[0]]
   \<and> assembled (identity 1) 0 (difference_dense 1 0) 0 0 = 1
   \<and> SymDense_At [[0]] 0 0 * 1 * 1 = 0
   \<and> Factorize [[0]] = None"
proof -
  have "assembled (identity 1) 0 (difference_dense 1 0) 0 0 = 1"
    by (simp add: assembled_def identity_def)
  moreover have "Factorize [[0]] = None" by (simp add: chol_eval)
  ultimately show ?thesis
    by (simp add: sym_of_single_series SymDense_At_def)
qed

subsection \<open>Orders at and beyond the length of the series\<close>

text \<open>
  Claim C5, as stated: an order equal to or larger than the length of the series
  gives an \<^verbatim>\<open>InvalidOrder\<close> error. The source returns no error value there: for
  the series \<open>[1]\<close> the orders \<open>1\<close> and \<open>2\<close> end in a panic.
\<close>

theorem WESmoother_order_panics:
  "WESmoother [1] 1 1 = None \<and> WESmoother [1] 1 2 = None"
  by (simp add: WESmoother_pure WESmoother_sym_invalid)

text \<open>
  Claim C5, amended. The source has no check of the order. For every series and
  every smoothing strength, an order equal to or larger than the length of the
  series ends the call in a panic, raised while the matrices are built; for a
  non-empty series the order \<open>len(y) - 1\<close> is accepted, that is, the call returns
  without a panic.
\<close>

theorem WESmoother_order_boundary:
  "(int (length y) \<le> d \<longrightarrow> WESmoother y lambda d = None)
   \<and> (y \<noteq> [] \<and> d = int (length y) - 1 \<longrightarrow> WESmoother y lambda d \<noteq> None)"
proof (intro conjI impI)
  assume "int (length y) \<le> d"
  then show "WESmoother y lambda d = None"
    by (simp add: WESmoother_pure WESmoother_sym_invalid)
next
  assume a: "y \<noteq> [] \<and> d = int (length y) - 1"
  then have "length y - 1 < length y" and "d = int (length y - 1)"
    by (auto simp: of_nat_diff Suc_le_eq)
  then show "WESmoother y lambda d \<noteq> None"
    using WESmoother_valid_returns [of "length y - 1" y lambda] by auto
qed

theorem WESmoother_order_boundary_witness:
  "int (length [1, 2::real]) \<le> 2 \<and> WESmoother [1, 2] 1 2 = None
   \<and> [1, 2::real] \<noteq> [] \<and> (1::int) = int (length [1, 2::real]) - 1 \<and> WESmoother [1, 2] 1 1 \<noteq> None"
proof -
  have h1: "int (length [1, 2::real]) \<le> 2" by simp
  have h2: "[1, 2::real] \<noteq> [] \<and> (1::int) = int (length [1, 2::real]) - 1" by simp
  from WESmoother_order_boundary [of "[1, 2]" 2 1] h1 have "WESmoother [1, 2] 1 2 = None" by blast
  moreover from WESmoother_order_boundary [of "[1, 2]" 1 1] h2 have "WESmoother [1, 2] 1 1 \<noteq> None"
    by blast
  ultimately show ?thesis using h1 h2 by blast
qed

subsection \<open>Negative smoothing strength\<close>

text \<open>
  Claim C6, as stated: a negative \<open>lambda\<close> gives an \<^verbatim>\<open>InvalidLambda\<close> error. On
  the source, the series \<open>[5]\<close> with \<open>lambda = -1\<close> and order \<open>0\<close> gives the error
  of the factorization, \<^verbatim>\<open>cholesky decomposition failed\<close>.
\<close>

theorem negative_lambda_cholesky_error:
  "WESmoother [5] (- 1) 0 = Some (None, Some (ErrorsNew ''cholesky decomposition failed''))"
  by (simp add: single_series_fails)

text \<open>
  Claim C6, amended. The source has no check of \<open>lambda\<close>. For a negative \<open>lambda\<close>
  and an order below the length of the series the call runs the factorization
  like any other call: it returns either \<^verbatim>\<open>nil\<close> with the error
  \<^verbatim>\<open>cholesky decomposition failed\<close>, or a series of the length of the input.
\<close>

theorem WESmoother_negative_lambda:
  assumes "lambda < 0" and "d < length y"
  shows "WESmoother y lambda (int d) = Some (None, Some (ErrorsNew ''cholesky decomposition failed''))
     \<or> (\<exists>z e. WESmoother y lambda (int d) = Some (Some z, e) \<and> length z = length y)"
proof -
  from WESmoother_valid_returns [OF assms(2)] obtain z e where
    "WESmoother y lambda (int d) = Some (z, e)" by blast
  then show ?thesis
    by (auto simp: WESmoother_pure length_chol_solve split: option.splits if_splits)
qed

theorem WESmoother_negative_lambda_witness:
  "(- 1::real) < 0 \<and> 0 < length [5::real]
   \<and> WESmoother [5] (- 1) (int 0) = Some (None, Some (ErrorsNew ''cholesky decomposition failed''))"
proof -
  have h1: "(- 1::real) < 0" and h2: "0 < length [5::real]" by simp_all
  have "\<not> (\<exists>z e. WESmoother [5] (- 1) (int 0) = Some (Some z, e) \<and> length z = length [5::real])"
    by (simp add: single_series_fails)
  with WESmoother_negative_lambda [OF h1 h2] h1 h2 show ?thesis by blast
qed

subsection \<open>Series and error together\<close>

text \<open>
  Claim C7, as stated: a returned error always comes with no series. On the
  source, the series \<open>[1, 1]\<close> with \<open>lambda = 2\<^sup>-\<^sup>6\<^sup>0\<close> and order \<open>0\<close> is factorized,
  solved, and returned together with the condition error of the solver.
\<close>

theorem WESmoother_series_with_error:
  "WESmoother [1, 1] (1 / 2 ^ 60) 0 =
     Some (Some [2 ^ 60 / (2 ^ 60 + 1), 2 ^ 60], Some (Condition (2 ^ 60 + 1)))"
proof -
  have len: "length [1, 1::real] = 2" by simp
  show ?thesis
    unfolding WESmoother_pure len WESmoother_sym_2_tiny by (simp add: chol_eval upt_conv_Cons)
qed

text \<open>
  Claim C7, amended. Every call ends in one of these ways: a panic; \<^verbatim>\<open>nil\<close> with
  the error \<^verbatim>\<open>cholesky decomposition failed\<close>; a series of the length of the
  input with no error; or a series of the length of the input together with the
  condition error of the solver, whose condition number exceeds \<open>10\<^sup>1\<^sup>6\<close>.
\<close>

theorem WESmoother_outcomes:
  "WESmoother y lambda d = None
   \<or> WESmoother y lambda d = Some (None, Some (ErrorsNew ''cholesky decomposition failed''))
   \<or> (\<exists>z. length z = length y \<and> z \<noteq> [] \<and>
         (WESmoother y lambda d = Some (Some z, None)
          \<or> (\<exists>c. c > 10 ^ 16 \<and> WESmoother y lambda d = Some (Some z, Some (Condition c)))))"
  by (auto simp: WESmoother_pure length_chol_solve chol_solve_Nil ConditionTolerance_def
        split: option.splits)

subsection \<open>A series of one value\<close>

text \<open>
  Claim C8, as stated: the series \<open>[5]\<close> with order \<open>0\<close> comes back as \<open>[5]\<close> for
  every \<open>lambda \<ge> 0\<close>. On the source, \<open>lambda = 9\<close> gives \<open>[5/9]\<close>.
\<close>

theorem single_value_not_preserved:
  "WESmoother [5] 9 0 = Some (Some [5 / 9], None) \<and> [5 / 9] \<noteq> [5::real]"
  by (simp add: single_series_result)

text \<open>
  Claim C8, amended. For the series \<open>[5]\<close>, order \<open>0\<close> and every \<open>lambda\<close> between
  \<open>2\<^sup>-\<^sup>5\<^sup>0\<^sup>0\<close> and \<open>2\<^sup>5\<^sup>0\<^sup>0\<close> (a range in which a \<^verbatim>\<open>float64\<close> neither overflows nor
  underflows in this computation) the call succeeds and returns the series of
  the one value \<open>5 / (e + lambda)\<close>, where \<open>e\<close> is the single entry of the dense
  matrix that \<^verbatim>\<open>speye(1)\<close> yields (\<open>1\<close> for an identity). The value changes with
  \<open>lambda\<close>; it is \<open>5\<close> only where \<open>e + lambda = 1\<close>.
\<close>

theorem WESmoother_single_value:
  assumes "1 / 2 ^ 500 \<le> lambda" and "lambda \<le> 2 ^ 500"
  shows "\<exists>e. speye 1 \<bind> ToDense = Some [[e]]
           \<and> WESmoother [5] lambda 0 = Some (Some [5 / (e + lambda)], None)"
proof -
  have "(0::real) < 1 / 2 ^ 500" by simp
  then have "0 < lambda" using assms(1) by linarith
  then have "WESmoother [5] lambda 0 = Some (Some [5 / (0 + lambda)], None)"
    by (simp add: single_series_result)
  with speye_dense_single show ?thesis by blast
qed

theorem WESmoother_single_value_witness:
  "(1::real) / 2 ^ 500 \<le> 4 \<and> (4::real) \<le> 2 ^ 500
   \<and> (\<exists>e. speye 1 \<bind> ToDense = Some [[e]] \<and> WESmoother [5] 4 0 = Some (Some [5 / (e + 4)], None))"
proof -
  have h1: "(1::real) / 2 ^ 500 \<le> 4" and h2: "(4::real) \<le> 2 ^ 500" by simp_all
  from WESmoother_single_value [OF h1 h2] h1 h2 show ?thesis by blast
qed

subsection \<open>The caller's series\<close>

text \<open>
  Claim C9. A call never changes the series it is given: whatever the outcome,
  the slice at the address of \<open>y\<close> holds the same values after the call as before
  it, and so does every other slice that existed before the call.
\<close>

theorem WESmoother_input_unchanged:
  assumes "y < length (slices h)"
  shows "slices (snd (WESmoother_heap h y lambda d)) ! y = slices h ! y
     \<and> take (length (slices h)) (slices (snd (WESmoother_heap h y lambda d))) = slices h"
  using assms
  by (auto simp: WESmoother_heap_def alloc_def NewVecDense_def SolveVecTo_def Let_def
        nth_append bind_eq_Some_conv split: option.splits if_splits)

theorem WESmoother_input_unchanged_witness:
  "0 < length (slices \<lparr>slices = [[5]]\<rparr>)
   \<and> slices (snd (WESmoother_heap \<lparr>slices = [[5]]\<rparr> 0 4 0)) ! 0 = [5]
   \<and> fst (WESmoother_heap \<lparr>slices = [[5]]\<rparr> 0 4 0) = Some (Some 1, None)"
proof -
  have h: "0 < length (slices \<lparr>slices = [[5]]\<rparr>)" by simp
  have len: "length [5::real] = 1" by simp
  have "fst (WESmoother_heap \<lparr>slices = [[5]]\<rparr> 0 4 0) = Some (Some 1, None)"
    by (simp add: WESmoother_heap_def sym_of_single_series alloc_def NewVecDense_def
          SolveVecTo_def chol_eval)
  with WESmoother_input_unchanged [OF h, of 4 0] h show ?thesis by simp
qed

subsection \<open>Order zero\<close>

text \<open>
  Claim C10. With order \<open>0\<close> every element of the result is \<open>y[i] / (1 + lambda)\<close>.
  On the source the last element is divided by \<open>lambda\<close> instead, because of the
  zero that \<^verbatim>\<open>speye\<close> leaves in the last diagonal entry: for the series \<open>[2, 6]\<close>
  and \<open>lambda = 1\<close> the result is \<open>[1, 6]\<close>, not \<open>[1, 3]\<close>.
\<close>

theorem WESmoother_order_zero_last_element:
  "WESmoother [2, 6] 1 0 = Some (Some [1, 6], None)
   \<and> [2 / (1 + 1), 6 / (1 + 1)] \<noteq> [1, 6::real]"
proof -
  have len: "length [2, 6::real] = 2" by simp
  have "WESmoother [2, 6] 1 0 = Some (Some [1, 6], None)"
    unfolding WESmoother_pure len WESmoother_sym_2_1_0 by (simp add: chol_eval upt_conv_Cons)
  then show ?thesis by simp
qed

end
